theory Spec2Isabelle
  imports Main "HOL-Library.Sublist"
begin

section \<open>Photo sorter: shallow embedding of main.py\<close>

text \<open>
  The program scans a directory, reads the capture time of every picture and groups the
  pictures, sorted by time, into runs whose neighbouring pictures are at most
  \<open>args.threshold\<close> seconds apart. Exceptions are values of type \<open>exn\<close>; a function
  that can raise returns \<open>exn + 'a\<close>, with \<open>Inl\<close> for the exception.
\<close>

subsection \<open>Data\<close>

datatype exn =
    IndexError
  | TypeError
  | ValueError
  | UnboundLocalError
  | OSError
  | FileNotFoundError
  | UnidentifiedImageError
  | NameError

text \<open>
  \<open>args.threshold\<close> is declared without \<open>type=\<close>: it is the integer default \<open>3\<close>
  unless the user gives \<open>-t\<close>, in which case argparse stores the text typed.
\<close>

datatype pyval = PyInt int | PyStr string

text \<open>An element of \<open>timeList\<close> is the tuple \<open>(path, unix)\<close>.\<close>

type_synonym shot = "string \<times> int"

subsection \<open>Grouping: \<open>sortPhotos\<close>\<close>

text \<open>\<open>xs[i]\<close> for a non-negative index: IndexError outside the list.\<close>

definition item :: "'a list \<Rightarrow> nat \<Rightarrow> exn + 'a" where
  "item xs i = (if i < length xs then Inr (xs ! i) else Inl IndexError)"

text \<open>
  \<open>diffTime <= args.threshold\<close>: Python 3 compares two integers and raises TypeError
  for an integer against a string.
\<close>

fun le_threshold :: "int \<Rightarrow> pyval \<Rightarrow> exn + bool" where
  "le_threshold d (PyInt t) = Inr (d \<le> t)"
| "le_threshold d (PyStr s) = Inl TypeError"

text \<open>\<open>countList[-1] += 1\<close>: IndexError on an empty list.\<close>

fun incr_last :: "nat list \<Rightarrow> exn + nat list" where
  "incr_last [] = Inl IndexError"
| "incr_last cl = Inr (butlast cl @ [last cl + 1])"

text \<open>One pass of the body of the first loop, at index \<open>n\<close>.\<close>

definition count_step :: "pyval \<Rightarrow> shot list \<Rightarrow> nat \<Rightarrow> nat list \<Rightarrow> exn + nat list" where
  "count_step threshold timeList n countList =
     (case item timeList (n + 1) of
        Inl e \<Rightarrow> Inl e
      | Inr later \<Rightarrow>
          (case item timeList n of
             Inl e \<Rightarrow> Inl e
           | Inr earlier \<Rightarrow>
               (let diffTime = snd later - snd earlier in
                case le_threshold diffTime threshold of
                  Inl e \<Rightarrow> Inl e
                | Inr True \<Rightarrow> incr_last countList
                | Inr False \<Rightarrow> Inr (countList @ [1]))))"

text \<open>The first loop over the indices it is given, stopping at the first exception.\<close>

fun count_loop :: "pyval \<Rightarrow> shot list \<Rightarrow> nat list \<Rightarrow> nat list \<Rightarrow> exn + nat list" where
  "count_loop threshold timeList [] countList = Inr countList"
| "count_loop threshold timeList (n # ns) countList =
     (case count_step threshold timeList n countList of
        Inl e \<Rightarrow> Inl e
      | Inr countList' \<Rightarrow> count_loop threshold timeList ns countList')"

text \<open>
  The inner loop \<open>for i in range(count): group.append(l.popleft()[0])\<close>; \<open>popleft\<close> on
  an empty deque raises IndexError. The list \<open>group\<close> is \<open>grp\<close> here.
\<close>

fun fill_group :: "nat \<Rightarrow> shot list \<Rightarrow> string list \<Rightarrow> exn + (string list \<times> shot list)" where
  "fill_group 0 l grp = Inr (grp, l)"
| "fill_group (Suc i) [] grp = Inl IndexError"
| "fill_group (Suc i) (x # l) grp = fill_group i l (grp @ [fst x])"

text \<open>The second loop \<open>for count in countList\<close>, over the deque \<open>l\<close>.\<close>

fun fill_groups :: "nat list \<Rightarrow> shot list \<Rightarrow> string list list \<Rightarrow> exn + string list list" where
  "fill_groups [] l photosList = Inr photosList"
| "fill_groups (count # countList) l photosList =
     (case fill_group count l [] of
        Inl e \<Rightarrow> Inl e
      | Inr (grp, l') \<Rightarrow> fill_groups countList l' (photosList @ [grp]))"

text \<open>
  \<open>range(len(timeList) - 1)\<close> is empty when the list has at most one element; the
  truncating subtraction on \<open>nat\<close> gives the same indices.
\<close>

definition sortPhotos :: "pyval \<Rightarrow> shot list \<Rightarrow> exn + string list list" where
  "sortPhotos threshold timeList =
     (case count_loop threshold timeList [0..<length timeList - 1] [1] of
        Inl e \<Rightarrow> Inl e
      | Inr countList \<Rightarrow> fill_groups countList timeList [])"

subsection \<open>Reading the capture time: \<open>getTimeShot\<close>\<close>

text \<open>
  What the imaging library finds at a path: a file that is no picture
  (\<open>Image.open\<close> raises UnidentifiedImageError), or a picture with the value of
  EXIF tag 306, \<open>None\<close> when the tag is absent. A path with no file raises
  FileNotFoundError.
\<close>

datatype fs_entry = NotImage | Image "string option"

type_synonym files = "string \<rightharpoonup> fs_entry"

text \<open>
  \<open>int(datetime.strptime(timeString, '%Y:%m:%d %H:%M:%S').timestamp())\<close> belongs to the
  standard library and depends on the time zone of the process: it is the parameter
  \<open>clock\<close>, undefined where \<open>strptime\<close> raises ValueError.
\<close>

type_synonym clock = "string \<rightharpoonup> int"

text \<open>The body of the \<open>try\<close> block; \<open>strptime(None, ...)\<close> raises TypeError.\<close>

definition try_unix :: "clock \<Rightarrow> files \<Rightarrow> string \<Rightarrow> exn + int" where
  "try_unix clock fs path =
     (case fs path of
        None \<Rightarrow> Inl FileNotFoundError
      | Some NotImage \<Rightarrow> Inl UnidentifiedImageError
      | Some (Image None) \<Rightarrow> Inl TypeError
      | Some (Image (Some timeString)) \<Rightarrow>
          (case clock timeString of
             None \<Rightarrow> Inl ValueError
           | Some unix \<Rightarrow> Inr unix))"

text \<open>
  The global \<open>logger\<close> is assigned once, by \<open>logger = setupLogger()\<close> under the
  \<open>__main__\<close> guard. The process that runs \<open>main\<close> has it; a worker of the pool
  inherits it when the pool forks, and has no such name when the pool starts its workers
  afresh (the spawn and forkserver start methods import the module under another name,
  so the guarded lines do not run). Reading an unbound global raises NameError.
\<close>

datatype logger = Logger

definition read_global :: "'a option \<Rightarrow> exn + 'a" where
  "read_global v = (case v of None \<Rightarrow> Inl NameError | Some x \<Rightarrow> Inr x)"

text \<open>
  The two handlers, in the order of the source: \<open>except UnidentifiedImageError\<close> first,
  then \<open>except Exception\<close>, which every constructor of \<open>exn\<close> is an instance of.
  Each handler calls \<open>logger.warning(e)\<close> before it assigns \<open>unix\<close>; an exception
  raised inside a handler is not caught by the other handler and leaves the function.
  The parameter \<open>logger\<close> is the global as the calling process has it.
\<close>

definition getTimeShot :: "logger option \<Rightarrow> clock \<Rightarrow> files \<Rightarrow> string \<Rightarrow> exn + shot" where
  "getTimeShot logger clock fs path =
     (case try_unix clock fs path of
        Inr unix \<Rightarrow> Inr (path, unix)
      | Inl e \<Rightarrow>
          (if e = UnidentifiedImageError then
             (case read_global logger of
                Inl e' \<Rightarrow> Inl e'
              | Inr lg \<Rightarrow> Inr (path, 1))
           else
             (case read_global logger of
                Inl e' \<Rightarrow> Inl e'
              | Inr lg \<Rightarrow> Inr (path, 0))))"

text \<open>
  \<open>Pool.imap\<close> yields the results in the order of \<open>filenames\<close>; an exception of a
  worker is raised again when its result is read. \<open>getTimeShot\<close> runs in the workers,
  so \<open>logger\<close> is the global as the workers have it.
\<close>

fun getTimeShotList :: "logger option \<Rightarrow> clock \<Rightarrow> files \<Rightarrow> string list \<Rightarrow> exn + shot list" where
  "getTimeShotList logger clock fs [] = Inr []"
| "getTimeShotList logger clock fs (filename # filenames) =
     (case getTimeShot logger clock fs filename of
        Inl e \<Rightarrow> Inl e
      | Inr r \<Rightarrow>
          (case getTimeShotList logger clock fs filenames of
             Inl e \<Rightarrow> Inl e
           | Inr rs \<Rightarrow> Inr (r # rs)))"

text \<open>
  Lines 195 to 199 of \<open>main\<close>: extraction, the stable \<open>sorted(timeList, key=itemgetter(1))\<close>
  and the grouping; \<open>logger\<close> is the global as the workers of the pool have it.
\<close>

definition main_grouped ::
  "logger option \<Rightarrow> clock \<Rightarrow> files \<Rightarrow> pyval \<Rightarrow> string list \<Rightarrow> exn + string list list" where
  "main_grouped logger clock fs threshold filenames =
     (case getTimeShotList logger clock fs filenames of
        Inl e \<Rightarrow> Inl e
      | Inr timeList \<Rightarrow> sortPhotos threshold (sort_key snd timeList))"

subsection \<open>Writing the report: \<open>exportResult\<close>\<close>

text \<open>
  The disk as the report writer sees it: the paths that \<open>open(path, 'w')\<close> refuses, and
  the reports written so far, each as its list of lines (one group per line).
\<close>

record disk =
  refused :: "string set"
  reports :: "string \<rightharpoonup> string list list"

definition os_sep :: char where
  "os_sep = CHR ''/''"

definition writeResults :: "string \<Rightarrow> string list list \<Rightarrow> disk \<Rightarrow> exn + disk" where
  "writeResults path grouped d =
     (if path \<in> refused d then Inl OSError
      else Inr (d\<lparr>reports := (reports d)(path \<mapsto> grouped)\<rparr>))"

text \<open>Reading a local variable: UnboundLocalError before its first assignment.\<close>

definition read_local :: "'a option \<Rightarrow> exn + 'a" where
  "read_local v = (case v of None \<Rightarrow> Inl UnboundLocalError | Some x \<Rightarrow> Inr x)"

text \<open>
  \<open>path\<close> is a local variable of \<open>exportResult\<close>, assigned only in the branch for
  \<open>args.export == None\<close>; in the handler of the other branch it is read before any
  assignment. \<open>args.path[-1]\<close> raises IndexError on the empty string. The bare
  \<open>except:\<close> catches every exception of the first write.
\<close>

definition exportResult :: "string \<Rightarrow> string option \<Rightarrow> string list list \<Rightarrow> disk \<Rightarrow> exn + disk" where
  "exportResult args_path args_export grouped d =
     (let path = (None :: string option) in
      case args_export of
        None \<Rightarrow>
          (if args_path = [] then Inl IndexError
           else
             (let path = (if last args_path \<noteq> os_sep
                          then args_path @ [os_sep] @ ''result.txt''
                          else args_path @ ''result.txt'')
              in writeResults path grouped d))
      | Some export \<Rightarrow>
          (case writeResults export grouped d of
             Inr d' \<Rightarrow> Inr d'
           | Inl e \<Rightarrow>
               (case read_local path of
                  Inl e' \<Rightarrow> Inl e'
                | Inr p \<Rightarrow>
                    (let path = (if p \<noteq> [os_sep]
                                 then args_path @ [os_sep] @ ''result.txt''
                                 else args_path @ ''result.txt'')
                     in writeResults path grouped d))))"

subsection \<open>Functions used in the proofs\<close>

text \<open>
  The counts the first loop ends with, by recursion on the list: \<open>c\<close> is the size
  reached by the open group.
\<close>

fun runs :: "int \<Rightarrow> shot list \<Rightarrow> nat \<Rightarrow> nat list" where
  "runs t (a # b # rest) c =
     (if snd b - snd a \<le> t then runs t (b # rest) (Suc c) else c # runs t (b # rest) 1)"
| "runs t rest c = [c]"

text \<open>Cutting a list of paths into pieces of the given sizes.\<close>

fun chop :: "nat list \<Rightarrow> 'a list \<Rightarrow> 'a list list" where
  "chop [] ps = []"
| "chop (c # cs) ps = take c ps # chop cs (drop c ps)"

text \<open>
  The grouping by recursion on the list: a picture joins the group of its successor when
  the gap is at most \<open>t\<close>, and closes a group of its own otherwise.
\<close>

fun clusters :: "int \<Rightarrow> shot list \<Rightarrow> string list list" where
  "clusters t [] = []"
| "clusters t [a] = [[fst a]]"
| "clusters t (a # b # rest) =
     (if snd b - snd a \<le> t
      then (fst a # hd (clusters t (b # rest))) # tl (clusters t (b # rest))
      else [fst a] # clusters t (b # rest))"

text \<open>The adjacent pairs of a list whose gap exceeds \<open>t\<close>.\<close>

definition gaps :: "int \<Rightarrow> shot list \<Rightarrow> (shot \<times> shot) list" where
  "gaps t xs = filter (\<lambda>(a, b). t < snd b - snd a) (zip xs (tl xs))"

section \<open>The two loops of \<open>sortPhotos\<close>\<close>

text \<open>
  Dropping the head of the list shifts every index by one, so the first loop on a list
  with two or more elements is one pass on its first pair followed by the loop on the tail.
\<close>

lemma item_Cons_Suc: "item (a # xs) (Suc n) = item xs n"
  by (simp add: item_def)

lemma count_step_Cons_Suc:
  "count_step th (a # xs) (Suc n) cl = count_step th xs n cl"
  by (simp add: count_step_def item_def)

lemma count_loop_Cons_Suc:
  "count_loop th (a # xs) (map Suc ns) cl = count_loop th xs ns cl"
  by (induction ns arbitrary: cl) (simp_all add: count_step_Cons_Suc split: sum.splits)

lemma count_step_0:
  "cl \<noteq> [] \<Longrightarrow> count_step (PyInt t) (a # b # rest) 0 cl =
     Inr (if snd b - snd a \<le> t then butlast cl @ [Suc (last cl)] else cl @ [1])"
  by (cases cl) (simp_all add: count_step_def item_def)

lemma upt_length_Cons: "[0..<length (a # b # rest) - 1] = 0 # map Suc [0..<length (b # rest) - 1]"
  by (simp add: upt_conv_Cons map_Suc_upt del: upt_Suc)

lemma count_loop_runs:
  "cl \<noteq> [] \<Longrightarrow>
   count_loop (PyInt t) xs [0..<length xs - 1] cl = Inr (butlast cl @ runs t xs (last cl))"
proof (induction xs arbitrary: cl rule: induct_list012)
  case 1
  then show ?case by simp
next
  case (2 a)
  then show ?case by simp
next
  case (3 a b rest)
  let ?cl' = "if snd b - snd a \<le> t then butlast cl @ [Suc (last cl)] else cl @ [1]"
  have ne: "?cl' \<noteq> []" by simp
  have step: "count_step (PyInt t) (a # b # rest) 0 cl = Inr ?cl'"
    using "3.prems" by (rule count_step_0)
  have "count_loop (PyInt t) (a # b # rest) [0..<length (a # b # rest) - 1] cl =
        count_loop (PyInt t) (b # rest) [0..<length (b # rest) - 1] ?cl'"
    unfolding upt_length_Cons count_loop.simps step
    by (simp only: count_loop_Cons_Suc sum.case)
  also have "\<dots> = Inr (butlast ?cl' @ runs t (b # rest) (last ?cl'))"
    by (rule "3.IH"(2) [OF ne])
  also have "\<dots> = Inr (butlast cl @ runs t (a # b # rest) (last cl))"
    using "3.prems" by simp
  finally show ?case .
qed

text \<open>
  The second loop cuts the paths into pieces of the counted sizes, provided the counts
  do not ask for more elements than the deque holds.
\<close>

lemma fill_group_eq:
  "fill_group n l g =
     (if n \<le> length l then Inr (g @ map fst (take n l), drop n l) else Inl IndexError)"
  by (induction n l g rule: fill_group.induct) simp_all

lemma fill_groups_eq:
  "sum_list cs \<le> length l \<Longrightarrow> fill_groups cs l acc = Inr (acc @ chop cs (map fst l))"
  by (induction cs arbitrary: l acc) (simp_all add: fill_group_eq take_map drop_map)

lemma sum_list_runs: "sum_list (runs t xs c) = c + (length xs - 1)"
  by (induction t xs c rule: runs.induct) simp_all

lemma clusters_not_Nil: "clusters t (a # xs) \<noteq> []"
  by (induction xs arbitrary: a) simp_all

lemma chop_runs:
  "length pre = k \<Longrightarrow>
   chop (runs t (a # xs) (Suc k)) (pre @ map fst (a # xs)) =
     (pre @ hd (clusters t (a # xs))) # tl (clusters t (a # xs))"
proof (induction xs arbitrary: a k pre)
  case Nil
  then show ?case by simp
next
  case (Cons b rest)
  show ?case
  proof (cases "snd b - snd a \<le> t")
    case True
    have "chop (runs t (b # rest) (Suc (Suc k))) ((pre @ [fst a]) @ map fst (b # rest)) =
          ((pre @ [fst a]) @ hd (clusters t (b # rest))) # tl (clusters t (b # rest))"
      by (rule Cons.IH) (simp add: Cons.prems)
    with True show ?thesis by simp
  next
    case False
    have "chop (runs t (b # rest) (Suc 0)) ([] @ map fst (b # rest)) =
          ([] @ hd (clusters t (b # rest))) # tl (clusters t (b # rest))"
      by (rule Cons.IH) simp
    with False Cons.prems clusters_not_Nil [of t b rest] show ?thesis by simp
  qed
qed

text \<open>
  On a non-empty list and an integer threshold \<open>sortPhotos\<close> returns, and what it
  returns is the grouping by recursion on the list. On the empty list the count
  \<open>[1]\<close> asks the empty deque for one element.
\<close>

lemma sortPhotos_clusters:
  "xs \<noteq> [] \<Longrightarrow> sortPhotos (PyInt t) xs = Inr (clusters t xs)"
proof -
  assume "xs \<noteq> []"
  then obtain a rest where xs: "xs = a # rest" by (cases xs) auto
  have cl: "count_loop (PyInt t) xs [0..<length xs - 1] [1] = Inr (runs t xs 1)"
    using count_loop_runs [of "[1]" t xs] by simp
  have "sum_list (runs t xs 1) \<le> length xs"
    by (simp add: sum_list_runs xs)
  then have "fill_groups (runs t xs 1) xs [] = Inr (chop (runs t xs 1) (map fst xs))"
    by (simp add: fill_groups_eq)
  also have "chop (runs t xs 1) (map fst xs) = clusters t xs"
    using chop_runs [of "[]" 0 t a rest] clusters_not_Nil [of t a rest] by (simp add: xs)
  finally show ?thesis using cl by (simp add: sortPhotos_def)
qed

lemma sortPhotos_Nil: "sortPhotos th [] = Inl IndexError"
  by (simp add: sortPhotos_def)

lemma sortPhotos_text_threshold:
  "sortPhotos (PyStr s) (a # b # rest) = Inl TypeError"
  by (simp add: sortPhotos_def upt_conv_Cons count_step_def item_def del: upt_Suc)

section \<open>Properties of the grouping\<close>

lemma concat_clusters: "concat (clusters t xs) = map fst xs"
proof (induction t xs rule: clusters.induct)
  case (3 t a b rest)
  then show ?case
    using clusters_not_Nil [of t b rest]
    by (cases "clusters t (b # rest)") (auto split: if_splits)
qed simp_all

lemma length_clusters: "length (clusters t (a # xs)) = Suc (length (gaps t (a # xs)))"
proof (induction xs arbitrary: a)
  case Nil
  then show ?case by (simp add: gaps_def)
next
  case (Cons b rest)
  then show ?case
    using clusters_not_Nil [of t b rest] by (auto simp: gaps_def)
qed

lemma clusters_member_not_Nil: "c \<in> set (clusters t xs) \<Longrightarrow> c \<noteq> []"
proof (induction t xs arbitrary: c rule: clusters.induct)
  case (3 t a b rest)
  then show ?case
    using clusters_not_Nil [of t b rest]
    by (cases "clusters t (b # rest)") (auto split: if_splits)
qed simp_all

lemma gaps_mono: "t1 \<le> t2 \<Longrightarrow> length (gaps t2 xs) \<le> length (gaps t1 xs)"
proof -
  assume le: "t1 \<le> t2"
  have "length (filter (\<lambda>(a, b). t2 < snd b - snd a) ps)
        \<le> length (filter (\<lambda>(a, b). t1 < snd b - (snd a :: int)) ps)" for ps :: "(shot \<times> shot) list"
    using le by (induction ps) auto
  then show ?thesis by (simp add: gaps_def)
qed

lemma hd_clusters: "\<exists>v. hd (clusters t (a # xs)) = fst a # v"
  by (cases xs) simp_all

lemma clusters_split_at:
  "\<exists>pre u. clusters t (xs @ z # zs) =
            pre @ (u @ hd (clusters t (z # zs))) # tl (clusters t (z # zs))
          \<and> concat pre @ u = map fst xs"
proof (induction xs)
  case Nil
  have "clusters t (z # zs) = [] @ ([] @ hd (clusters t (z # zs))) # tl (clusters t (z # zs))"
    using clusters_not_Nil [of t z zs] by simp
  then show ?case by (metis append_Nil concat.simps(1) list.simps(8))
next
  case (Cons x xs)
  let ?H = "hd (clusters t (z # zs))" and ?T = "tl (clusters t (z # zs))"
  obtain y ys where ys: "xs @ z # zs = y # ys" by (cases xs) auto
  from Cons.IH obtain pre u where
    E: "clusters t (y # ys) = pre @ (u @ ?H) # ?T" and c: "concat pre @ u = map fst xs"
    unfolding ys by blast
  show ?case
  proof (cases "snd y - snd x \<le> t")
    case False
    then have "clusters t ((x # xs) @ z # zs) = ([fst x] # pre) @ (u @ ?H) # ?T"
      by (simp add: ys E)
    moreover have "concat ([fst x] # pre) @ u = map fst (x # xs)" using c by simp
    ultimately show ?thesis by blast
  next
    case True
    show ?thesis
    proof (cases pre)
      case Nil
      with True have "clusters t ((x # xs) @ z # zs) = [] @ ((fst x # u) @ ?H) # ?T"
        by (simp add: ys E)
      moreover have "concat [] @ (fst x # u) = map fst (x # xs)" using c Nil by simp
      ultimately show ?thesis by blast
    next
      case (Cons p ps)
      with True have "clusters t ((x # xs) @ z # zs) = ((fst x # p) # ps) @ (u @ ?H) # ?T"
        by (simp add: ys E)
      moreover have "concat ((fst x # p) # ps) @ u = map fst (x # xs)" using c Cons by simp
      ultimately show ?thesis by blast
    qed
  qed
qed

lemma clusters_join:
  assumes "snd b - snd a \<le> t"
  shows "\<exists>pre u v post. clusters t (xs @ a # b # ys) = pre @ (u @ fst a # fst b # v) # post
           \<and> concat pre @ u = map fst xs"
proof -
  obtain v where v: "hd (clusters t (b # ys)) = fst b # v" using hd_clusters by blast
  obtain pre u where
    "clusters t (xs @ a # b # ys) =
       pre @ (u @ hd (clusters t (a # b # ys))) # tl (clusters t (a # b # ys))"
    and "concat pre @ u = map fst xs"
    using clusters_split_at by blast
  with assms v show ?thesis by auto
qed

lemma clusters_cut:
  assumes "\<not> snd b - snd a \<le> t"
  shows "\<exists>pre u v post. clusters t (xs @ a # b # ys) = pre @ (u @ [fst a]) # (fst b # v) # post
           \<and> concat pre @ u = map fst xs"
proof -
  obtain v where v: "hd (clusters t (b # ys)) = fst b # v" using hd_clusters by blast
  then have C: "clusters t (b # ys) = (fst b # v) # tl (clusters t (b # ys))"
    using clusters_not_Nil [of t b ys] by (metis list.collapse)
  obtain pre u where
    "clusters t (xs @ a # b # ys) =
       pre @ (u @ hd (clusters t (a # b # ys))) # tl (clusters t (a # b # ys))"
    and "concat pre @ u = map fst xs"
    using clusters_split_at by blast
  with assms C show ?thesis by (metis clusters.simps(3) list.sel(1) list.sel(3))
qed

lemma clusters_low_prefix:
  assumes "1 \<le> t" and "xs \<noteq> []" and "\<forall>r\<in>set xs. snd r = 0 \<or> snd r = 1"
  shows "prefix (map fst xs) (hd (clusters t (xs @ ys)))"
  using assms(2,3)
proof (induction xs rule: induct_list012)
  case 1
  then show ?case by simp
next
  case (2 a)
  obtain v where "hd (clusters t (a # ys)) = fst a # v" using hd_clusters by blast
  then show ?case by simp
next
  case (3 a b rest)
  have "snd b - snd a \<le> t" using "3.prems"(2) assms(1) by auto
  moreover have "prefix (map fst (b # rest)) (hd (clusters t ((b # rest) @ ys)))"
    using "3.IH"(2) "3.prems"(2) by simp
  ultimately show ?case by simp
qed

text \<open>
  A list sorted by timestamp is its negative timestamps, then those equal to 0 or 1, then
  the larger ones; with a threshold of at least 1 the middle part lies in one group.
\<close>

lemma sorted_split_at:
  "sorted (map snd xs) \<Longrightarrow>
   xs = filter (\<lambda>r. snd r < k) xs @ filter (\<lambda>r. \<not> snd r < (k::int)) xs"
proof (induction xs)
  case Nil
  then show ?case by simp
next
  case (Cons a xs)
  show ?case
  proof (cases "snd a < k")
    case True
    with Cons show ?thesis by simp
  next
    case False
    with Cons.prems have "\<forall>r\<in>set xs. \<not> snd r < k" by auto
    then have "filter (\<lambda>r. snd r < k) xs = []" and "filter (\<lambda>r. \<not> snd r < k) xs = xs"
      by (simp_all add: filter_empty_conv filter_id_conv)
    with False show ?thesis by simp
  qed
qed

lemma sorted_three_parts:
  assumes "sorted (map snd xs)"
  shows "\<exists>neg low high. xs = neg @ low @ high
           \<and> (\<forall>r\<in>set neg. snd r < (0::int))
           \<and> (\<forall>r\<in>set low. snd r = 0 \<or> snd r = 1)
           \<and> (\<forall>r\<in>set high. 1 < snd r)"
proof -
  let ?rest = "filter (\<lambda>r. \<not> snd r < 0) xs"
  have 1: "xs = filter (\<lambda>r. snd r < 0) xs @ ?rest"
    using assms by (rule sorted_split_at)
  have "sorted (map snd ?rest)" using assms by (rule sorted_filter)
  then have 2: "?rest = filter (\<lambda>r. snd r < 2) ?rest @ filter (\<lambda>r. \<not> snd r < 2) ?rest"
    by (rule sorted_split_at)
  have "\<forall>r\<in>set (filter (\<lambda>r. snd r < 2) ?rest). snd r = 0 \<or> snd r = 1" by auto
  moreover have "\<forall>r\<in>set (filter (\<lambda>r. \<not> snd r < 2) ?rest). 1 < snd r" by auto
  moreover have "\<forall>r\<in>set (filter (\<lambda>r. snd r < 0) xs). snd r < 0" by auto
  ultimately show ?thesis using 1 2 by metis
qed

lemma clusters_low_together:
  assumes "sorted (map snd xs)" and "1 \<le> t" and "xs \<noteq> []"
  shows "\<exists>g. g \<in> set (clusters t xs)
           \<and> (\<forall>r\<in>set xs. snd r = 0 \<or> snd r = 1 \<longrightarrow> fst r \<in> set g)
           \<and> ((\<forall>r\<in>set xs. 0 \<le> snd r) \<longrightarrow> g = hd (clusters t xs))"
proof -
  obtain neg low high where xs: "xs = neg @ low @ high"
    and neg: "\<forall>r\<in>set neg. snd r < 0"
    and low: "\<forall>r\<in>set low. snd r = 0 \<or> snd r = 1"
    and high: "\<forall>r\<in>set high. 1 < snd r"
    using sorted_three_parts [OF assms(1)] by blast
  have ne: "clusters t xs \<noteq> []" using assms(3) clusters_not_Nil by (cases xs) auto
  show ?thesis
  proof (cases low)
    case Nil
    have "\<forall>r\<in>set xs. \<not> (snd r = 0 \<or> snd r = 1)"
      using xs Nil neg high by fastforce
    then show ?thesis using ne by (metis hd_in_set)
  next
    case (Cons z zs)
    let ?H = "hd (clusters t (z # zs @ high))"
    obtain pre u where
      C: "clusters t (neg @ z # zs @ high) = pre @ (u @ ?H) # tl (clusters t (z # zs @ high))"
      and cu: "concat pre @ u = map fst neg"
      using clusters_split_at [of t neg z "zs @ high"] by blast
    have pf: "prefix (map fst low) ?H"
      using clusters_low_prefix [OF assms(2) _ low, of high] Cons by simp
    have mem: "u @ ?H \<in> set (clusters t xs)" using C xs Cons by simp
    have inlow: "fst r \<in> set (u @ ?H)" if "r \<in> set xs" and "snd r = 0 \<or> snd r = 1" for r
    proof -
      have "r \<in> set low" using that xs neg high by fastforce
      then have "fst r \<in> set (map fst low)" by simp
      then show ?thesis using pf set_mono_prefix by fastforce
    qed
    have lead: "u @ ?H = hd (clusters t xs)" if "\<forall>r\<in>set xs. 0 \<le> snd r"
    proof -
      have "neg = []"
      proof (cases neg)
        case (Cons n ns)
        then have "n \<in> set xs" and "snd n < 0" using xs neg by simp_all
        with that show ?thesis by fastforce
      qed simp
      with cu have u: "u = []" and cp: "concat pre = []" by simp_all
      have "pre = []"
      proof (cases pre)
        case (Cons p ps)
        then have "p \<in> set (clusters t xs)" using C xs \<open>low = z # zs\<close> by simp
        then have "p \<noteq> []" by (rule clusters_member_not_Nil)
        with cp Cons show ?thesis by simp
      qed simp
      with u C xs \<open>low = z # zs\<close> \<open>neg = []\<close> show ?thesis by simp
    qed
    from mem inlow lead show ?thesis by blast
  qed
qed

section \<open>Extraction and report\<close>

lemma getTimeShot_returns:
  "\<exists>unix. getTimeShot (Some Logger) clock fs path = Inr (path, unix)"
  by (cases "try_unix clock fs path") (simp_all add: getTimeShot_def read_global_def)

lemma getTimeShotList_returns:
  "\<exists>timeList. getTimeShotList (Some Logger) clock fs filenames = Inr timeList
     \<and> map fst timeList = filenames
     \<and> list_all (\<lambda>r. getTimeShot (Some Logger) clock fs (fst r) = Inr r) timeList"
proof (induction filenames)
  case Nil
  then show ?case by simp
next
  case (Cons filename filenames)
  obtain unix where "getTimeShot (Some Logger) clock fs filename = Inr (filename, unix)"
    using getTimeShot_returns by blast
  with Cons.IH show ?case by auto
qed

lemma exportResult_default:
  "args_path \<noteq> [] \<Longrightarrow> last args_path \<noteq> os_sep \<Longrightarrow>
   args_path @ [os_sep] @ ''result.txt'' \<notin> refused d \<Longrightarrow>
   exportResult args_path None grouped d =
     Inr (d\<lparr>reports := (reports d)(args_path @ [os_sep] @ ''result.txt'' \<mapsto> grouped)\<rparr>)"
  by (simp add: exportResult_def writeResults_def)

lemma main_grouped_clusters:
  assumes "filenames \<noteq> []"
  shows "\<exists>timeList. getTimeShotList (Some Logger) clock fs filenames = Inr timeList
           \<and> map fst timeList = filenames
           \<and> list_all (\<lambda>r. getTimeShot (Some Logger) clock fs (fst r) = Inr r) timeList
           \<and> main_grouped (Some Logger) clock fs (PyInt t) filenames
               = Inr (clusters t (sort_key snd timeList))"
proof -
  obtain timeList where tl: "getTimeShotList (Some Logger) clock fs filenames = Inr timeList"
    and m: "map fst timeList = filenames"
    and a: "list_all (\<lambda>r. getTimeShot (Some Logger) clock fs (fst r) = Inr r) timeList"
    using getTimeShotList_returns by blast
  have "timeList \<noteq> []" using m assms by auto
  then have "sort_key snd timeList \<noteq> []"
    by (metis length_sort length_0_conv)
  then have "main_grouped (Some Logger) clock fs (PyInt t) filenames
               = Inr (clusters t (sort_key snd timeList))"
    by (simp add: main_grouped_def tl sortPhotos_clusters)
  with tl m a show ?thesis by blast
qed

section \<open>The claims\<close>

subsection \<open>C1: the groups partition the input\<close>

text \<open>
  C1 speaks of every input. On the empty input \<open>sortPhotos\<close> raises IndexError and
  returns no groups; on every non-empty input, sorted or not, and for every integer
  threshold it returns groups whose concatenation, in the order emitted, is the list of
  the paths of the input: no picture is left out, none is repeated, the order is kept.
\<close>

theorem partition_nonempty:
  "sortPhotos (PyInt t) [] = Inl IndexError
   \<and> (timeList \<noteq> [] \<longrightarrow>
        (\<exists>photosList. sortPhotos (PyInt t) timeList = Inr photosList
           \<and> concat photosList = map fst timeList))"
  by (simp add: sortPhotos_Nil sortPhotos_clusters concat_clusters)

theorem partition_nonempty_witness:
  "[(''a.jpg'', 100), (''b.jpg'', 103), (''c.jpg'', 110::int)] \<noteq> []
   \<and> (\<exists>photosList.
        sortPhotos (PyInt 3) [(''a.jpg'', 100), (''b.jpg'', 103), (''c.jpg'', 110)] = Inr photosList
        \<and> concat photosList = [''a.jpg'', ''b.jpg'', ''c.jpg''])"
  using partition_nonempty [of 3 "[(''a.jpg'', 100), (''b.jpg'', 103), (''c.jpg'', 110)]"]
  by simp

subsection \<open>C2: the empty input\<close>

text \<open>
  C2 says that the empty input gives an empty list of groups and no error. The code
  raises: the count list starts as \<open>[1]\<close>, and the second loop pops one element from
  the empty deque, for every threshold, also when \<open>main\<close> reaches \<open>sortPhotos\<close> with
  no file name at all.
\<close>

theorem empty_input_raises:
  "sortPhotos threshold [] = Inl IndexError
   \<and> main_grouped logger clock fs threshold [] = Inl IndexError"
  by (simp add: sortPhotos_def main_grouped_def)

subsection \<open>C3: unreadable, unparsable and epoch-0 pictures\<close>

text \<open>
  C3, as stated, fails at the default threshold 3. Extraction gives a picture without
  the tag the timestamp 0 and a file that is no picture the timestamp 1, so the
  difference computed between the two is 1, not 0; and with a picture taken before 1970
  in the directory the two land in the second group, not in the leading one.
\<close>

theorem sentinel_cluster_counterexample:
  "getTimeShotList (Some Logger) [''1969:12:31 23:00:00'' \<mapsto> - 3600]
      [''a.jpg'' \<mapsto> Image None, ''b.jpg'' \<mapsto> NotImage,
       ''old.jpg'' \<mapsto> Image (Some ''1969:12:31 23:00:00'')]
      [''a.jpg'', ''b.jpg'']
     = Inr [(''a.jpg'', 0), (''b.jpg'', 1)]
   \<and> main_grouped (Some Logger) [''1969:12:31 23:00:00'' \<mapsto> - 3600]
      [''a.jpg'' \<mapsto> Image None, ''b.jpg'' \<mapsto> NotImage,
       ''old.jpg'' \<mapsto> Image (Some ''1969:12:31 23:00:00'')]
      (PyInt 3) [''a.jpg'', ''b.jpg'', ''old.jpg'']
     = Inr [[''old.jpg''], [''a.jpg'', ''b.jpg'']]"
  by (simp add: main_grouped_def getTimeShot_def try_unix_def read_global_def sortPhotos_clusters)

text \<open>
  C3, amended: for every threshold of at least 1 and every non-empty list of file names,
  with \<open>logger\<close> bound in the workers, the grouping of \<open>main\<close> returns, and one of
  its groups holds every file whose extracted timestamp is 0 or 1 (the unparsable, the
  unreadable, and the pictures taken at epoch second 0 or 1); that group is the leading
  one whenever no file has a negative timestamp.
\<close>

theorem sentinel_one_cluster:
  assumes "1 \<le> t" and "filenames \<noteq> []"
  shows "\<exists>grouped g. main_grouped (Some Logger) clock fs (PyInt t) filenames = Inr grouped
           \<and> g \<in> set grouped
           \<and> (\<forall>f u. f \<in> set filenames \<longrightarrow> getTimeShot (Some Logger) clock fs f = Inr (f, u)
                 \<longrightarrow> u = 0 \<or> u = 1 \<longrightarrow> f \<in> set g)
           \<and> ((\<forall>f u. f \<in> set filenames \<longrightarrow> getTimeShot (Some Logger) clock fs f = Inr (f, u)
                 \<longrightarrow> 0 \<le> u) \<longrightarrow> g = hd grouped)"
proof -
  obtain timeList where m: "map fst timeList = filenames"
    and a: "list_all (\<lambda>r. getTimeShot (Some Logger) clock fs (fst r) = Inr r) timeList"
    and G: "main_grouped (Some Logger) clock fs (PyInt t) filenames
               = Inr (clusters t (sort_key snd timeList))"
    using main_grouped_clusters [OF assms(2)] by blast
  let ?S = "sort_key snd timeList"
  have S: "set ?S = set timeList" by simp
  have "timeList \<noteq> []" using m assms(2) by auto
  then have ne: "?S \<noteq> []" by (metis length_sort length_0_conv)
  have "sorted (map snd ?S)" by (rule sorted_sort_key)
  from clusters_low_together [OF this assms(1) ne] obtain g where
    g: "g \<in> set (clusters t ?S)"
    and lowg: "\<forall>r\<in>set ?S. snd r = 0 \<or> snd r = 1 \<longrightarrow> fst r \<in> set g"
    and lead: "(\<forall>r\<in>set ?S. 0 \<le> snd r) \<longrightarrow> g = hd (clusters t ?S)"
    by blast
  have rec: "getTimeShot (Some Logger) clock fs (fst r) = Inr r" if "r \<in> set timeList" for r
    using a that by (simp add: list_all_iff)
  have 1: "f \<in> set g"
    if "f \<in> set filenames" and "getTimeShot (Some Logger) clock fs f = Inr (f, u)"
      and "u = 0 \<or> u = 1" for f u
  proof -
    from that(1) m obtain r where r: "r \<in> set timeList" and "fst r = f" by auto
    with rec that(2) have "r = (f, u)" by fastforce
    with r lowg that(3) S show ?thesis by fastforce
  qed
  have 2: "g = hd (clusters t ?S)"
    if h: "\<forall>f u. f \<in> set filenames \<longrightarrow> getTimeShot (Some Logger) clock fs f = Inr (f, u) \<longrightarrow> 0 \<le> u"
  proof -
    have "0 \<le> snd r" if "r \<in> set timeList" for r
    proof -
      have "fst r \<in> set filenames" using that m by force
      moreover have "getTimeShot (Some Logger) clock fs (fst r) = Inr (fst r, snd r)"
        using rec [OF that] by simp
      ultimately show ?thesis using h by blast
    qed
    with lead S show ?thesis by simp
  qed
  from G g 1 2 show ?thesis by blast
qed

theorem sentinel_one_cluster_witness:
  "(1::int) \<le> 3 \<and> [''b.jpg'', ''late.jpg'', ''a.jpg''] \<noteq> []
   \<and> (\<exists>grouped g.
         main_grouped (Some Logger) [''1970:01:01 00:16:40'' \<mapsto> 1000]
           [''a.jpg'' \<mapsto> Image None, ''b.jpg'' \<mapsto> NotImage,
            ''late.jpg'' \<mapsto> Image (Some ''1970:01:01 00:16:40'')]
           (PyInt 3) [''b.jpg'', ''late.jpg'', ''a.jpg''] = Inr grouped
         \<and> g \<in> set grouped \<and> ''a.jpg'' \<in> set g \<and> ''b.jpg'' \<in> set g \<and> g = hd grouped)"
proof -
  let ?clock = "[''1970:01:01 00:16:40'' \<mapsto> (1000::int)]"
  let ?fs = "[''a.jpg'' \<mapsto> Image None, ''b.jpg'' \<mapsto> NotImage,
            ''late.jpg'' \<mapsto> Image (Some ''1970:01:01 00:16:40'')]"
  let ?fns = "[''b.jpg'', ''late.jpg'', ''a.jpg'']"
  have a: "getTimeShot (Some Logger) ?clock ?fs ''a.jpg'' = Inr (''a.jpg'', 0)"
    and b: "getTimeShot (Some Logger) ?clock ?fs ''b.jpg'' = Inr (''b.jpg'', 1)"
    and l: "getTimeShot (Some Logger) ?clock ?fs ''late.jpg'' = Inr (''late.jpg'', 1000)"
    by (simp_all add: getTimeShot_def try_unix_def read_global_def)
  have t: "(1::int) \<le> 3" and ne: "?fns \<noteq> []" by simp_all
  from sentinel_one_cluster [OF t ne, of ?clock ?fs] obtain grouped g where
    G: "main_grouped (Some Logger) ?clock ?fs (PyInt 3) ?fns = Inr grouped"
    and g: "g \<in> set grouped"
    and low: "\<forall>f u. f \<in> set ?fns \<longrightarrow> getTimeShot (Some Logger) ?clock ?fs f = Inr (f, u)
                 \<longrightarrow> u = 0 \<or> u = 1 \<longrightarrow> f \<in> set g"
    and lead: "(\<forall>f u. f \<in> set ?fns \<longrightarrow> getTimeShot (Some Logger) ?clock ?fs f = Inr (f, u)
                 \<longrightarrow> 0 \<le> u) \<longrightarrow> g = hd grouped"
    by blast
  have "''a.jpg'' \<in> set g" using low a by simp
  moreover have "''b.jpg'' \<in> set g" using low b by simp
  moreover have "\<forall>f u. f \<in> set ?fns \<longrightarrow> getTimeShot (Some Logger) ?clock ?fs f = Inr (f, u)
                 \<longrightarrow> 0 \<le> u"
    using a b l by auto
  then have "g = hd grouped" using lead by blast
  ultimately show ?thesis using G g t ne by blast
qed

subsection \<open>C4: the threshold is inclusive\<close>

text \<open>
  C4: for two neighbours \<open>a\<close>, \<open>b\<close> anywhere in the input, a gap equal to the threshold
  puts both paths next to each other in one group, and a gap of the threshold plus one
  ends a group with \<open>a\<close> and starts the next with \<open>b\<close>; the paths before \<open>a\<close> in the
  groups are exactly the paths of the pictures before \<open>a\<close> in the input. With the
  threshold 3 the timestamps 100, 103 give one group and 100, 104 give two.
\<close>

theorem threshold_inclusive:
  "(snd b - snd a = t \<longrightarrow>
      (\<exists>pre u v post. sortPhotos (PyInt t) (xs @ a # b # ys) = Inr (pre @ (u @ fst a # fst b # v) # post)
         \<and> concat pre @ u = map fst xs))
   \<and> (snd b - snd a = t + 1 \<longrightarrow>
      (\<exists>pre u v post. sortPhotos (PyInt t) (xs @ a # b # ys) = Inr (pre @ (u @ [fst a]) # (fst b # v) # post)
         \<and> concat pre @ u = map fst xs))
   \<and> sortPhotos (PyInt 3) [(p, 100), (q, 103)] = Inr [[p, q]]
   \<and> sortPhotos (PyInt 3) [(p, 100), (q, 104)] = Inr [[p], [q]]"
proof -
  have S: "sortPhotos (PyInt t) (xs @ a # b # ys) = Inr (clusters t (xs @ a # b # ys))"
    by (simp add: sortPhotos_clusters)
  have "snd b - snd a = t \<Longrightarrow>
      \<exists>pre u v post. sortPhotos (PyInt t) (xs @ a # b # ys) = Inr (pre @ (u @ fst a # fst b # v) # post)
         \<and> concat pre @ u = map fst xs"
    unfolding S using clusters_join [of b a t xs ys] by simp
  moreover have "snd b - snd a = t + 1 \<Longrightarrow>
      \<exists>pre u v post. sortPhotos (PyInt t) (xs @ a # b # ys) = Inr (pre @ (u @ [fst a]) # (fst b # v) # post)
         \<and> concat pre @ u = map fst xs"
    unfolding S using clusters_cut [of b a t xs ys] by simp
  moreover have "sortPhotos (PyInt 3) [(p, 100), (q, 103)] = Inr [[p, q]]"
    by (simp add: sortPhotos_clusters)
  moreover have "sortPhotos (PyInt 3) [(p, 100), (q, 104)] = Inr [[p], [q]]"
    by (simp add: sortPhotos_clusters)
  ultimately show ?thesis by blast
qed

theorem threshold_inclusive_witness:
  "snd (''b.jpg'', 103::int) - snd (''a.jpg'', 100::int) = 3
   \<and> (\<exists>pre u v post.
         sortPhotos (PyInt 3) ([(''z.jpg'', 99)] @ (''a.jpg'', 100) # (''b.jpg'', 103) # [])
           = Inr (pre @ (u @ ''a.jpg'' # ''b.jpg'' # v) # post)
         \<and> concat pre @ u = [''z.jpg''])
   \<and> snd (''b.jpg'', 104::int) - snd (''a.jpg'', 100::int) = 3 + 1
   \<and> (\<exists>pre u v post.
         sortPhotos (PyInt 3) ([(''z.jpg'', 99)] @ (''a.jpg'', 100) # (''b.jpg'', 104) # [])
           = Inr (pre @ (u @ [''a.jpg'']) # (''b.jpg'' # v) # post)
         \<and> concat pre @ u = [''z.jpg''])"
  using threshold_inclusive [of "(''b.jpg'', 103)" "(''a.jpg'', 100)" 3 "[(''z.jpg'', 99)]" "[]"]
        threshold_inclusive [of "(''b.jpg'', 104)" "(''a.jpg'', 100)" 3 "[(''z.jpg'', 99)]" "[]"]
  by simp

subsection \<open>C5: extraction never fails\<close>

text \<open>
  C5 says that \<open>getTimeShot\<close> never raises. In a worker that has no global \<open>logger\<close>
  every failure path (missing file, file that is no picture, picture without the tag,
  tag that does not parse) raises NameError inside its handler, and the batch raises
  with it. Where \<open>logger\<close> is bound, \<open>getTimeShot\<close> returns one tuple carrying the
  path, with the timestamp 1 for a file that is no picture and 0 for the other failures,
  and \<open>getTimeShotList\<close> returns one tuple for each file name, in their order.
\<close>

theorem extraction_needs_logger:
  "getTimeShot None clock (fs(path := None)) path = Inl NameError
   \<and> getTimeShot None clock (fs(path \<mapsto> NotImage)) path = Inl NameError
   \<and> getTimeShot None clock (fs(path \<mapsto> Image None)) path = Inl NameError
   \<and> getTimeShot None (clock(s := None)) (fs(path \<mapsto> Image (Some s))) path = Inl NameError
   \<and> getTimeShotList None clock (fs(path \<mapsto> NotImage)) (path # filenames) = Inl NameError
   \<and> (\<exists>unix. getTimeShot (Some Logger) clock fs path = Inr (path, unix))
   \<and> getTimeShot (Some Logger) clock (fs(path := None)) path = Inr (path, 0)
   \<and> getTimeShot (Some Logger) clock (fs(path \<mapsto> NotImage)) path = Inr (path, 1)
   \<and> getTimeShot (Some Logger) clock (fs(path \<mapsto> Image None)) path = Inr (path, 0)
   \<and> getTimeShot (Some Logger) (clock(s := None)) (fs(path \<mapsto> Image (Some s))) path
       = Inr (path, 0)
   \<and> (\<exists>timeList. getTimeShotList (Some Logger) clock fs filenames = Inr timeList
         \<and> map fst timeList = filenames)"
  using getTimeShot_returns [of clock fs path] getTimeShotList_returns [of clock fs filenames]
  by (auto simp add: getTimeShot_def try_unix_def read_global_def)

subsection \<open>C6: a larger threshold gives no more groups\<close>

text \<open>
  C6 speaks of every input. On the empty input \<open>sortPhotos\<close> raises for both
  thresholds, so there is no number of groups to compare; on every non-empty input both
  runs return, and the run with the larger threshold returns at most as many groups.
\<close>

theorem threshold_monotone_nonempty:
  "sortPhotos (PyInt t1) [] = Inl IndexError
   \<and> sortPhotos (PyInt t2) [] = Inl IndexError
   \<and> (t1 \<le> t2 \<longrightarrow> timeList \<noteq> [] \<longrightarrow>
        (\<exists>g1 g2. sortPhotos (PyInt t1) timeList = Inr g1
           \<and> sortPhotos (PyInt t2) timeList = Inr g2
           \<and> length g2 \<le> length g1))"
proof -
  have "length (clusters t2 (a # rest)) \<le> length (clusters t1 (a # rest))"
    if "t1 \<le> t2" for a rest
    using that by (simp add: length_clusters gaps_mono)
  then have "t1 \<le> t2 \<longrightarrow> timeList \<noteq> [] \<longrightarrow>
        (\<exists>g1 g2. sortPhotos (PyInt t1) timeList = Inr g1
           \<and> sortPhotos (PyInt t2) timeList = Inr g2
           \<and> length g2 \<le> length g1)"
    by (cases timeList) (simp_all add: sortPhotos_clusters)
  then show ?thesis by (simp add: sortPhotos_Nil)
qed

theorem threshold_monotone_nonempty_witness:
  "(1::int) \<le> 5 \<and> [(''a.jpg'', 10), (''b.jpg'', 13::int)] \<noteq> []
   \<and> (\<exists>g1 g2. sortPhotos (PyInt 1) [(''a.jpg'', 10), (''b.jpg'', 13)] = Inr g1
         \<and> sortPhotos (PyInt 5) [(''a.jpg'', 10), (''b.jpg'', 13)] = Inr g2
         \<and> length g2 \<le> length g1)"
  using threshold_monotone_nonempty [of 1 5 "[(''a.jpg'', 10), (''b.jpg'', 13)]"]
  by simp

subsection \<open>C7: the fallback of the report\<close>

text \<open>
  C7 says that a failed write to \<open>args.export\<close> falls back to \<open>result.txt\<close> under
  \<open>args.path\<close>. The handler reads the local variable \<open>path\<close> before assigning it:
  whenever the first write fails, \<open>exportResult\<close> raises UnboundLocalError and writes
  nothing, whether or not the default path can be written.
\<close>

theorem export_fallback_unbound:
  "export \<in> refused d \<Longrightarrow> exportResult args_path (Some export) grouped d = Inl UnboundLocalError"
  by (simp add: exportResult_def writeResults_def read_local_def)

theorem export_fallback_unbound_witness:
  "''/ro/out.txt'' \<in> refused \<lparr>refused = {''/ro/out.txt''}, reports = Map.empty\<rparr>
   \<and> exportResult ''photos'' (Some ''/ro/out.txt'') [[''photos/a.jpg'']]
        \<lparr>refused = {''/ro/out.txt''}, reports = Map.empty\<rparr> = Inl UnboundLocalError"
  using export_fallback_unbound
          [of "''/ro/out.txt''" "\<lparr>refused = {''/ro/out.txt''}, reports = Map.empty\<rparr>"
              "''photos''" "[[''photos/a.jpg'']]"]
  by simp

subsection \<open>C8: sentinels and genuine timestamps\<close>

text \<open>
  C8, as stated, fails: a picture taken at epoch second 1 gives the same tuple as a file
  that is no picture, and a picture taken at epoch second 0 the same tuple as a picture
  without the tag.
\<close>

theorem sentinel_collision_counterexample:
  "getTimeShot (Some Logger) [''1970:01:01 00:00:01'' \<mapsto> 1]
       [''a.jpg'' \<mapsto> Image (Some ''1970:01:01 00:00:01'')] ''a.jpg''
     = getTimeShot (Some Logger) [''1970:01:01 00:00:01'' \<mapsto> 1] [''a.jpg'' \<mapsto> NotImage] ''a.jpg''
   \<and> getTimeShot (Some Logger) [''1970:01:01 00:00:00'' \<mapsto> 0]
       [''a.jpg'' \<mapsto> Image (Some ''1970:01:01 00:00:00'')] ''a.jpg''
     = getTimeShot (Some Logger) [''1970:01:01 00:00:00'' \<mapsto> 0] [''a.jpg'' \<mapsto> Image None] ''a.jpg''"
  by (simp add: getTimeShot_def try_unix_def read_global_def)

text \<open>
  C8, amended: the two failure classes are the timestamps 1 (no picture) and 0 (no
  usable time), which differ from each other; a picture whose time parses to \<open>unix\<close>
  gives the tuple of a file that is no picture exactly when \<open>unix = 1\<close>, and the tuple
  of a picture without the tag exactly when \<open>unix = 0\<close>. The failure classes are taken
  where their handlers complete, with \<open>logger\<close> bound.
\<close>

theorem sentinel_values:
  "getTimeShot (Some Logger) clock (fs(path \<mapsto> NotImage)) path
     \<noteq> getTimeShot (Some Logger) clock' (fs'(path \<mapsto> Image None)) path
   \<and> (getTimeShot logger (clock(s \<mapsto> unix)) (fs(path \<mapsto> Image (Some s))) path
        = getTimeShot (Some Logger) clock' (fs'(path \<mapsto> NotImage)) path) = (unix = 1)
   \<and> (getTimeShot logger (clock(s \<mapsto> unix)) (fs(path \<mapsto> Image (Some s))) path
        = getTimeShot (Some Logger) clock' (fs'(path \<mapsto> Image None)) path) = (unix = 0)"
  by (simp add: getTimeShot_def try_unix_def read_global_def)

subsection \<open>C9: the scenario of five pictures\<close>

text \<open>
  C9: with the threshold 3, sorting and grouping the pictures taken at 1000, 1001, 1010,
  1011 and 1012 gives two groups, the first two pictures and the last three; the same
  through extraction, for five files given in another order.
\<close>

theorem end_to_end_scenario:
  "sortPhotos (PyInt 3)
     (sort_key snd [(p1, 1000), (p2, 1001), (p3, 1010), (p4, 1011), (p5, 1012)])
     = Inr [[p1, p2], [p3, p4, p5]]
   \<and> main_grouped logger
       [''1970:01:01 00:16:40'' \<mapsto> 1000, ''1970:01:01 00:16:41'' \<mapsto> 1001,
        ''1970:01:01 00:16:50'' \<mapsto> 1010, ''1970:01:01 00:16:51'' \<mapsto> 1011,
        ''1970:01:01 00:16:52'' \<mapsto> 1012]
       [''a.jpg'' \<mapsto> Image (Some ''1970:01:01 00:16:40''),
        ''b.jpg'' \<mapsto> Image (Some ''1970:01:01 00:16:41''),
        ''c.jpg'' \<mapsto> Image (Some ''1970:01:01 00:16:50''),
        ''d.jpg'' \<mapsto> Image (Some ''1970:01:01 00:16:51''),
        ''e.jpg'' \<mapsto> Image (Some ''1970:01:01 00:16:52'')]
       (PyInt 3) [''d.jpg'', ''a.jpg'', ''e.jpg'', ''c.jpg'', ''b.jpg'']
     = Inr [[''a.jpg'', ''b.jpg''], [''c.jpg'', ''d.jpg'', ''e.jpg'']]"
  by (simp add: main_grouped_def getTimeShot_def try_unix_def sortPhotos_clusters)

subsection \<open>C10: the number of groups\<close>

text \<open>
  C10: for every non-empty input, sorted or not, and every integer threshold,
  \<open>sortPhotos\<close> returns one group more than there are neighbouring pairs whose gap
  exceeds the threshold, and no group is empty.
\<close>

theorem cluster_count:
  "timeList \<noteq> [] \<Longrightarrow>
   \<exists>photosList. sortPhotos (PyInt t) timeList = Inr photosList
     \<and> length photosList
         = 1 + length (filter (\<lambda>(a, b). t < snd b - snd a) (zip timeList (tl timeList)))
     \<and> [] \<notin> set photosList"
proof -
  assume "timeList \<noteq> []"
  then obtain a rest where xs: "timeList = a # rest" by (cases timeList) auto
  have "[] \<notin> set (clusters t timeList)" using clusters_member_not_Nil by blast
  moreover have "length (clusters t timeList) = 1 + length (gaps t timeList)"
    by (simp add: xs length_clusters)
  ultimately show ?thesis by (simp add: xs sortPhotos_clusters gaps_def)
qed

theorem cluster_count_witness:
  "[(''a.jpg'', 100), (''b.jpg'', 104), (''c.jpg'', 105::int)] \<noteq> []
   \<and> (\<exists>photosList.
        sortPhotos (PyInt 3) [(''a.jpg'', 100), (''b.jpg'', 104), (''c.jpg'', 105)] = Inr photosList
        \<and> length photosList = 2 \<and> [] \<notin> set photosList)"
  using cluster_count [of "[(''a.jpg'', 100), (''b.jpg'', 104), (''c.jpg'', 105)]" 3]
  by (simp add: numeral_2_eq_2)

end
